theory Spec2Isabelle
  imports Main "HOL-Library.Sublist" "HOL-Library.AList"
begin

section \<open>JavaScript strings\<close>

text \<open>
  A JavaScript string is a sequence of UTF-16 code units. It is modelled as a
  \<^typ>\<open>string\<close>: one \<^typ>\<open>char\<close> stands for one code unit below 256, so
  \<open>length\<close> is \<open>.length\<close>, \<open>drop n\<close> is \<open>.slice(n)\<close> and \<open>s ! i\<close> (in range) is
  \<open>s[i]\<close>. The code units from 256 on (among them the line terminators U+2028 and
  U+2029 and the Unicode spaces) are outside the model.
\<close>

definition str_includes :: "string \<Rightarrow> string \<Rightarrow> bool" where
  \<comment> \<open>\<open>s.includes(t)\<close>\<close>
  "str_includes s t = sublist t s"

definition str_startsWith :: "string \<Rightarrow> string \<Rightarrow> bool" where
  \<comment> \<open>\<open>s.startsWith(t)\<close>\<close>
  "str_startsWith s t = prefix t s"

definition str_endsWith :: "string \<Rightarrow> string \<Rightarrow> bool" where
  \<comment> \<open>\<open>s.endsWith(t)\<close>\<close>
  "str_endsWith s t = suffix t s"

definition newline :: char where
  "newline = CHR 0x0A"

function js_split :: "string \<Rightarrow> string \<Rightarrow> string list" where
  \<comment> \<open>\<open>s.split(sep)\<close> for a separator string \<open>sep\<close>: the pieces between the successive
      occurrences of \<open>sep\<close>, found from left to right; the empty separator cuts
      between all code units\<close>
  "js_split sep [] = (if sep = [] then [] else [[]])"
| "js_split sep (x # xs) =
     (if sep = [] then [x] # js_split sep xs
      else if prefix sep (x # xs) then [] # js_split sep (drop (length sep) (x # xs))
      else (case js_split sep xs of [] \<Rightarrow> [[x]] | p # ps \<Rightarrow> (x # p) # ps))"
  by pat_completeness auto
termination
  by (relation "measure (\<lambda>(sep, s). length s)") auto

definition is_whitespace :: "char \<Rightarrow> bool" where
  \<comment> \<open>the white space and line terminators that \<open>trim\<close> removes, below 256:
      TAB, LF, VT, FF, CR, SP, NBSP\<close>
  "is_whitespace c =
     (c = CHR 0x09 \<or> c = CHR 0x0A \<or> c = CHR 0x0B \<or> c = CHR 0x0C \<or> c = CHR 0x0D
      \<or> c = CHR 0x20 \<or> c = CHR 0xA0)"

definition trim :: "string \<Rightarrow> string" where
  \<comment> \<open>\<open>s.trim()\<close>\<close>
  "trim s = rev (dropWhile is_whitespace (rev (dropWhile is_whitespace s)))"

definition digit_char :: "nat \<Rightarrow> char" where
  \<comment> \<open>the digit, for \<open>d\<close> below 10\<close>
  "digit_char d = ''0123456789'' ! d"

fun show_nat :: "nat \<Rightarrow> string" where
  \<comment> \<open>the decimal numeral that a template literal or a property key makes of a
      non-negative integer\<close>
  "show_nat n = (if n < 10 then [digit_char n] else show_nat (n div 10) @ [digit_char (n mod 10)])"

declare show_nat.simps [simp del]

section \<open>utils: detectPatternType\<close>

datatype pattern_type = File | Directory | Glob

text \<open>
  \<open>path.sep\<close> is a constant of the platform (\<open>/\<close> or \<open>\\<close>); both versions take it
  as the parameter \<open>sep\<close>.
\<close>

definition detectPatternType_utils :: "string \<Rightarrow> string \<Rightarrow> pattern_type" where
  \<comment> \<open>src/utils.ts\<close>
  "detectPatternType_utils sep pattern =
     (let containsFileExtension = str_includes pattern ''.'';
          containsDirectorySeparator = (str_includes pattern sep \<or> str_endsWith pattern sep)
      in if str_includes pattern ''*'' then Glob
         else if \<not> containsFileExtension \<and> \<not> containsDirectorySeparator then Directory
         else if containsFileExtension \<and> \<not> containsDirectorySeparator then File
         else Glob)"

definition detectPatternType_index :: "string \<Rightarrow> string \<Rightarrow> pattern_type" where
  \<comment> \<open>src/utils/index.ts\<close>
  "detectPatternType_index sep pattern =
     (let containsFileExtension = str_includes pattern ''.'';
          containsDirectorySeparator = str_includes pattern sep
      in if str_includes pattern ''*'' then Glob
         else if \<not> containsFileExtension \<and> \<not> containsDirectorySeparator then Directory
         else if containsFileExtension \<and> \<not> containsDirectorySeparator then File
         else Glob)"

section \<open>utils: removeCommentMarkup\<close>

fun skip_past :: "string \<Rightarrow> string \<Rightarrow> string option" where
  \<comment> \<open>what follows the first occurrence of \<open>t\<close> in the text, if there is one\<close>
  "skip_past t [] = (if t = [] then Some [] else None)"
| "skip_past t (x # xs) =
     (if prefix t (x # xs) then Some (drop (length t) (x # xs)) else skip_past t xs)"

lemma skip_past_length: "skip_past t s = Some r \<Longrightarrow> length r \<le> length s"
  by (induction s) (auto split: if_splits)

definition is_line_terminator :: "char \<Rightarrow> bool" where
  \<comment> \<open>what \<open>.\<close> of a regular expression does not match, below 256: LF and CR\<close>
  "is_line_terminator c = (c = CHR 0x0A \<or> c = CHR 0x0D)"

text \<open>
  \<open>input.replace(/\/\*[\s\S]*?\*\/|\/\/.*/gm, '')\<close> of src/utils.ts: from left to right,
  at a position where a block comment opens and is closed later, the text up to and
  including the first closing \<open>*/\<close> is deleted; otherwise, at \<open>//\<close>, the text up to
  the next line terminator is deleted; otherwise the code unit is kept.
\<close>

function removeCommentMarkup :: "string \<Rightarrow> string" where
  "removeCommentMarkup [] = []"
| "removeCommentMarkup (c # cs) =
     (case (if prefix ''/*'' (c # cs) then skip_past ''*/'' (drop 2 (c # cs)) else None) of
        Some rest \<Rightarrow> removeCommentMarkup rest
      | None \<Rightarrow>
          if prefix ''//'' (c # cs)
          then removeCommentMarkup (dropWhile (\<lambda>d. \<not> is_line_terminator d) (drop 2 (c # cs)))
          else c # removeCommentMarkup cs)"
  by pat_completeness auto
termination
proof (relation "measure length")
  show "wf (measure length)" by simp
next
  fix c :: char and cs x2 :: string
  assume "(if prefix ''/*'' (c # cs) then skip_past ''*/'' (drop 2 (c # cs)) else None) = Some x2"
  then have "skip_past ''*/'' (drop 2 (c # cs)) = Some x2"
    by (simp split: if_splits)
  from skip_past_length [OF this] show "(x2, c # cs) \<in> measure length" by simp
next
  fix c :: char and cs :: string
  have "length (dropWhile (\<lambda>d. \<not> is_line_terminator d) (drop 2 (c # cs))) \<le> length (drop 2 (c # cs))"
    by (rule length_dropWhile_le)
  then show "(dropWhile (\<lambda>d. \<not> is_line_terminator d) (drop 2 (c # cs)), c # cs) \<in> measure length"
    by simp
next
  fix c :: char and cs :: string
  show "(cs, c # cs) \<in> measure length" by simp
qed

section \<open>The catalog extractor: extractTranslations\<close>

text \<open>
  \<open>prefixes\<close> of \<open>./const\<close> is not part of the sources at hand: it is the parameter
  \<open>prefixRules\<close>, the list of its properties in the order of \<open>for (const prefix in prefixes)\<close>,
  each with the array \<open>prefixes[prefix]\<close>.
\<close>

type_synonym prefix_rules = "(string \<times> string list) list"

record pot_fields =
  f_msgid :: string
  f_msgstr :: string
  f_msgctxt :: string
  f_comments :: string

record pot_record =
  translationKey :: "string option"
  r_msgid :: string
  r_msgstr :: string
  r_msgctxt :: string
  r_comments :: string

definition classify_line :: "string \<Rightarrow> pot_fields \<Rightarrow> pot_fields" where
  \<comment> \<open>the body of \<open>lines.forEach\<close>\<close>
  "classify_line line st =
     (if str_startsWith line ''msgid'' then st\<lparr>f_msgid := trim (drop 6 line)\<rparr>
      else if str_startsWith line ''msgstr'' then st\<lparr>f_msgstr := trim (drop 7 line)\<rparr>
      else if str_startsWith line ''msgctxt'' then st\<lparr>f_msgctxt := trim (drop 8 line)\<rparr>
      else if str_startsWith line ''#''
        then st\<lparr>f_comments := f_comments st @ trim (drop 2 line) @ [newline]\<rparr>
      else st)"

definition parse_entry :: "string \<Rightarrow> pot_fields" where
  \<comment> \<open>the four variables of an entry after \<open>lines.forEach\<close>\<close>
  "parse_entry entry =
     fold classify_line (js_split [newline] entry)
       \<lparr>f_msgid = [], f_msgstr = [], f_msgctxt = [], f_comments = []\<rparr>"

definition array_first :: "'a list \<Rightarrow> 'a option" where
  \<comment> \<open>\<open>a[0]\<close>, undefined for the empty array\<close>
  "array_first a = (case a of [] \<Rightarrow> None | x # _ \<Rightarrow> Some x)"

definition push_matching ::
  "pot_fields \<Rightarrow> string \<times> string list \<Rightarrow> pot_record list \<Rightarrow> pot_record list" where
  \<comment> \<open>the body of \<open>for (const prefix in prefixes)\<close>\<close>
  "push_matching st rule translations =
     (if str_startsWith (f_msgid st) (fst rule)
      then translations @
        [\<lparr>translationKey = array_first (snd rule), r_msgid = f_msgid st,
          r_msgstr = f_msgstr st, r_msgctxt = f_msgctxt st, r_comments = f_comments st\<rparr>]
      else translations)"

definition process_entry :: "prefix_rules \<Rightarrow> string \<Rightarrow> pot_record list \<Rightarrow> pot_record list" where
  \<comment> \<open>the body of \<open>entries.forEach\<close>\<close>
  "process_entry prefixRules entry translations =
     fold (push_matching (parse_entry entry)) prefixRules translations"

definition extractTranslations :: "prefix_rules \<Rightarrow> string \<Rightarrow> pot_record list" where
  "extractTranslations prefixRules content =
     fold (process_entry prefixRules) (js_split [newline, newline] content) []"

section \<open>The position index: findLineNumber\<close>

text \<open>
  \<open>lineIndex\<close> is an object with integer keys, modelled as an association list in
  the order of insertion; \<open>for ... in\<close> visits integer keys in ascending order.
  \<open>parseInt\<close> of a key gives the number back.
\<close>

type_synonym line_index = "(nat \<times> nat) list"

fun findLineNumber_loop :: "nat \<Rightarrow> nat list \<Rightarrow> nat \<Rightarrow> nat" where
  "findLineNumber_loop charIndex [] previousIndex = previousIndex"
| "findLineNumber_loop charIndex (currentIndex # rest) previousIndex =
     (if charIndex < currentIndex then previousIndex
      else findLineNumber_loop charIndex rest currentIndex)"

definition findLineNumber :: "nat \<Rightarrow> line_index \<Rightarrow> nat option" where
  \<comment> \<open>\<open>None\<close> is \<open>undefined\<close>, for a key that the index does not have\<close>
  "findLineNumber charIndex indexMap =
     map_of indexMap (findLineNumber_loop charIndex (sort (map fst indexMap)) 0)"

fun build_lineIndex :: "string list \<Rightarrow> nat \<Rightarrow> nat \<Rightarrow> line_index \<Rightarrow> line_index" where
  \<comment> \<open>\<open>lines.forEach((line, idx) => ...)\<close> with the variable \<open>cumulativeLength\<close>\<close>
  "build_lineIndex [] idx cumulativeLength lineIndex = lineIndex"
| "build_lineIndex (line # rest) idx cumulativeLength lineIndex =
     build_lineIndex rest (idx + 1) (cumulativeLength + length line + 1)
       (AList.update cumulativeLength (idx + 1) lineIndex)"

definition lineIndex_of :: "string \<Rightarrow> line_index" where
  "lineIndex_of content = build_lineIndex (js_split [newline] content) 0 0 []"

section \<open>The code extractor: extractTranslationsFromCode\<close>

text \<open>
  \<open>TRANSLATIONS_REGEX\<close> of \<open>./const\<close> is not part of the sources at hand. What the loop
  uses of it is \<open>exec\<close>: given the text and the position \<open>lastIndex\<close> kept by the
  regular expression object, it returns the next match at or after that position,
  or \<open>null\<close>. It is the parameter \<open>regex\<close>. A match carries its start \<open>match.index\<close>,
  the matched text \<open>match[0]\<close> and the capture groups that the loop destructures;
  a group that took no part in the match is \<open>undefined\<close> (\<open>None\<close>).
\<close>

record regex_match =
  m_index :: nat
  m_fullMatch :: string
  m_translatorComment :: "string option"
  m_fnPrefix :: "string option"
  m_msgid :: "string option"
  m_msgctxt :: "string option"

type_synonym matcher = "string \<Rightarrow> nat \<Rightarrow> regex_match option"

record TranslationString =
  ts_msgid :: "string option"
  ts_msgctxt :: "string option"
  ts_comments :: "string option"
  ts_reference :: string

text \<open>
  A line written by \<open>console.log\<close> is kept as the values that its template
  interpolates: the file, the line, \<open>msgctxt[1]\<close> and the slug.
\<close>

record slug_warning =
  w_filename :: string
  w_lineNumber :: "nat option"
  w_found :: string
  w_slug :: string

definition show_lineNumber :: "nat option \<Rightarrow> string" where
  \<comment> \<open>\<open>${lineNumber}\<close> in a template literal\<close>
  "show_lineNumber n = (case n of None \<Rightarrow> ''undefined'' | Some k \<Rightarrow> show_nat k)"

definition slug_check ::
  "string \<Rightarrow> nat option \<Rightarrow> string \<Rightarrow> string option \<Rightarrow> slug_warning list" where
  \<comment> \<open>lines 101 to 105: \<open>msgctxt\<close> is a string, \<open>msgctxt[1]\<close> its second code unit\<close>
  "slug_check filename lineNumber slug msgctxt =
     (case msgctxt of
        None \<Rightarrow> []
      | Some c \<Rightarrow>
          if c \<noteq> [] \<and> 2 \<le> length c
          then (if [c ! 1] \<noteq> slug
                then [\<lparr>w_filename = filename, w_lineNumber = lineNumber,
                       w_found = [c ! 1], w_slug = slug\<rparr>]
                else [])
          else [])"

definition make_translation :: "string \<Rightarrow> nat option \<Rightarrow> regex_match \<Rightarrow> TranslationString" where
  \<comment> \<open>lines 107 to 112: the object pushed\<close>
  "make_translation filename lineNumber m =
     \<lparr>ts_msgid = m_msgid m,
      ts_msgctxt = m_msgctxt m,
      ts_comments =
        (case m_translatorComment m of
           None \<Rightarrow> None
         | Some translatorComment \<Rightarrow> Some (trim (removeCommentMarkup translatorComment))),
      ts_reference = ''#: '' @ filename @ '':'' @ show_lineNumber lineNumber\<rparr>"

text \<open>
  The \<open>while\<close> loop, with the state it changes: \<open>lastIndex\<close> of the regular
  expression (after a match, the end of the match), the array \<open>translations\<close> and
  the lines logged. The loop may run forever, so it returns an option.
\<close>

partial_function (option) exec_loop ::
  "matcher \<Rightarrow> string \<Rightarrow> string \<Rightarrow> string \<Rightarrow> line_index \<Rightarrow> nat \<Rightarrow>
   TranslationString list \<Rightarrow> slug_warning list \<Rightarrow>
   (TranslationString list \<times> slug_warning list) option" where
  "exec_loop regex content filename slug lineIndex lastIndex translations logged =
     (case regex content lastIndex of
        None \<Rightarrow> Some (translations, logged)
      | Some m \<Rightarrow>
          let lineNumber = findLineNumber (m_index m) lineIndex
          in exec_loop regex content filename slug lineIndex
               (m_index m + length (m_fullMatch m))
               (translations @ [make_translation filename lineNumber m])
               (logged @ slug_check filename lineNumber slug (m_msgctxt m)))"

declare exec_loop.simps [code]

definition extractTranslationsFromCode ::
  "matcher \<Rightarrow> string \<Rightarrow> string \<Rightarrow> string \<Rightarrow>
   (TranslationString list \<times> slug_warning list) option" where
  "extractTranslationsFromCode regex content filename slug =
     exec_loop regex content filename slug (lineIndex_of content) 0 [] []"

section \<open>The pattern matcher\<close>

text \<open>
  Modelled from the spec: \<open>TRANSLATIONS_REGEX\<close> of \<open>./const\<close> is missing. Section 4.1 of
  the spec: the pattern recognises invocations of translation functions; a match
  exposes the full matched span, an optional preceding translator annotation, the
  invoked function-name prefix, the message id, an optional plural form and an
  optional context; the operation "find next match from current position"
  advances and never matches the same span again. Here \<open>recognise content p\<close> is the
  invocation that the pattern recognises at position \<open>p\<close> of the text, with the
  length of its span; \<open>pattern_matcher\<close> is the operation "find next match": the
  leftmost position at or after \<open>lastIndex\<close> where an invocation is recognised whose
  span is not empty and lies within the text.
\<close>

record invocation =
  i_span :: nat
  i_annotation :: "string option"
  i_fnPrefix :: string
  i_msgid :: string
  i_plural :: "string option"
  i_context :: "string option"

type_synonym recogniser = "string \<Rightarrow> nat \<Rightarrow> invocation option"

definition recognised_at :: "recogniser \<Rightarrow> string \<Rightarrow> nat \<Rightarrow> bool" where
  \<comment> \<open>Modelled from the spec: a match is an invocation, whose span holds at least the
      function-name prefix, within the text\<close>
  "recognised_at recognise content p =
     (case recognise content p of
        None \<Rightarrow> False
      | Some call \<Rightarrow> 0 < i_span call \<and> p + i_span call \<le> length content)"

definition pattern_matcher :: "recogniser \<Rightarrow> matcher" where
  \<comment> \<open>Modelled from the spec: "find next match from current position" of section 4.1,
      for the missing \<open>TRANSLATIONS_REGEX\<close>\<close>
  "pattern_matcher recognise content lastIndex =
     (case find (recognised_at recognise content) [lastIndex..<length content] of
        None \<Rightarrow> None
      | Some p \<Rightarrow>
          (case recognise content p of
             None \<Rightarrow> None
           | Some call \<Rightarrow>
               Some \<lparr>m_index = p,
                     m_fullMatch = take (i_span call) (drop p content),
                     m_translatorComment = i_annotation call,
                     m_fnPrefix = Some (i_fnPrefix call),
                     m_msgid = Some (i_msgid call),
                     m_msgctxt = i_context call\<rparr>))"

section \<open>The structured-data extractor: yieldParsedData\<close>

text \<open>
  What \<open>JSON.parse\<close> can give. \<open>JNull\<close> stands for \<open>null\<close> and \<open>undefined\<close>; of a
  number only whether it is zero is used. \<open>JObj\<close> holds the properties in the order
  of \<open>Object.entries\<close>.
\<close>

datatype jvalue =
  JNull
| JBool bool
| JNum int
| JStr string
| JArr "jvalue list"
| JObj "(string \<times> jvalue) list"

datatype js_error = TypeError

fun truthy :: "jvalue \<Rightarrow> bool" where
  "truthy JNull = False"
| "truthy (JBool b) = b"
| "truthy (JNum n) = (n \<noteq> 0)"
| "truthy (JStr s) = (s \<noteq> [])"
| "truthy (JArr xs) = True"
| "truthy (JObj es) = True"

fun object_entries :: "jvalue \<Rightarrow> js_error + (string \<times> jvalue) list" where
  \<comment> \<open>\<open>Object.entries(v)\<close>: throws on \<open>null\<close> and \<open>undefined\<close>\<close>
  "object_entries JNull = Inl TypeError"
| "object_entries (JBool b) = Inr []"
| "object_entries (JNum n) = Inr []"
| "object_entries (JStr s) = Inr (zip (map show_nat [0..<length s]) (map (\<lambda>c. JStr [c]) s))"
| "object_entries (JArr xs) = Inr (zip (map show_nat [0..<length xs]) xs)"
| "object_entries (JObj es) = Inr es"

datatype source_kind = BlockJson | ThemeJson | ReadmeTxt

record translation_comments =
  extracted :: string
  reference :: "string option"

record GetTextTranslation =
  msgctxt :: "string option"
  msgid :: string
  msgid_plural :: string
  msgstr :: "string list"
  comments :: translation_comments

text \<open>
  The catalog is an object of objects: from the context key to the entries by
  message id. An object is an association list in the order of insertion, and an
  assignment to a property is \<open>AList.update\<close>: in place when the property is there, at
  the end otherwise. (JavaScript lists integer-like property names first; no
  statement below depends on the order of the properties.)
\<close>

type_synonym TranslationStrings = "(string \<times> (string \<times> GetTextTranslation) list) list"

definition gentranslation :: "string \<Rightarrow> string \<Rightarrow> string option \<Rightarrow> GetTextTranslation" where
  "gentranslation label string filePath =
     \<lparr>msgctxt = None, msgid = string, msgid_plural = [], msgstr = [],
      comments = \<lparr>extracted = label, reference = filePath\<rparr>\<rparr>"

definition store_entry :: "GetTextTranslation \<Rightarrow> TranslationStrings \<Rightarrow> TranslationStrings" where
  \<comment> \<open>lines 75 to 78: the assignment to \<open>gettextTranslations[entry.msgctxt ?? '']\<close>\<close>
  "store_entry entry gettextTranslations =
     (let ctx = (case msgctxt entry of None \<Rightarrow> [] | Some c \<Rightarrow> c)
      in AList.update ctx
           (AList.update (msgid entry) entry
              (case map_of gettextTranslations ctx of None \<Rightarrow> [] | Some inner \<Rightarrow> inner))
           gettextTranslations)"

text \<open>
  \<open>getJsonComment\<close> of \<open>./json\<close> is not part of the sources at hand: it is the
  parameter \<open>getJsonComment\<close>. \<open>storeTranslation\<close> takes \<open>term\<close> of the enclosing
  callback; its parameter \<open>value\<close> is not used by its body, and a call without
  \<open>valueKey\<close> passes \<open>term\<close>.
\<close>

definition storeTranslation ::
  "(string \<Rightarrow> source_kind \<Rightarrow> string) \<Rightarrow> source_kind \<Rightarrow> string \<Rightarrow> string \<Rightarrow>
   jvalue \<Rightarrow> string \<Rightarrow> TranslationStrings \<Rightarrow> TranslationStrings" where
  "storeTranslation getJsonComment filename filepath term value valueKey gettextTranslations =
     store_entry (gentranslation (getJsonComment term filename) valueKey (Some filepath))
       gettextTranslations"

fun forEach_err :: "('a \<Rightarrow> 's \<Rightarrow> js_error + 's) \<Rightarrow> 'a list \<Rightarrow> 's \<Rightarrow> js_error + 's" where
  \<comment> \<open>\<open>forEach\<close> with a callback that can throw\<close>
  "forEach_err f [] s = Inr s"
| "forEach_err f (x # xs) s = (case f x s of Inl e \<Rightarrow> Inl e | Inr s' \<Rightarrow> forEach_err f xs s')"

definition store_inner ::
  "(string \<Rightarrow> source_kind \<Rightarrow> string) \<Rightarrow> source_kind \<Rightarrow> string \<Rightarrow> string \<Rightarrow>
   string \<times> jvalue \<Rightarrow> TranslationStrings \<Rightarrow> TranslationStrings" where
  \<comment> \<open>lines 88 to 92: the callback on the entries of a nested object\<close>
  "store_inner getJsonComment filename filepath term kv gettextTranslations =
     (case snd kv of
        JStr v \<Rightarrow>
          storeTranslation getJsonComment filename filepath term (JStr v) (fst kv)
            gettextTranslations
      | _ \<Rightarrow> gettextTranslations)"

definition process_item ::
  "(string \<Rightarrow> source_kind \<Rightarrow> string) \<Rightarrow> source_kind \<Rightarrow> string \<Rightarrow>
   string \<times> jvalue \<Rightarrow> TranslationStrings \<Rightarrow> js_error + TranslationStrings" where
  \<comment> \<open>lines 81 to 93: the callback on \<open>[term, item]\<close>\<close>
  "process_item getJsonComment filename filepath ti gettextTranslations =
     (let term = fst ti; item = snd ti
      in if \<not> truthy item then Inr gettextTranslations
         else case item of
           JStr s \<Rightarrow>
             Inr (storeTranslation getJsonComment filename filepath term item term
                    gettextTranslations)
         | JArr xs \<Rightarrow>
             Inr (fold (\<lambda>value. storeTranslation getJsonComment filename filepath term value term)
                    xs gettextTranslations)
         | _ \<Rightarrow>
             (case object_entries item of
                Inl e \<Rightarrow> Inl e
              | Inr es \<Rightarrow>
                  Inr (fold (store_inner getJsonComment filename filepath term) es
                         gettextTranslations)))"

definition yieldParsedData ::
  "(string \<Rightarrow> source_kind \<Rightarrow> string) \<Rightarrow> jvalue \<Rightarrow> source_kind \<Rightarrow> string \<Rightarrow>
   js_error + TranslationStrings" where
  "yieldParsedData getJsonComment parsed filename filepath =
     (if \<not> truthy parsed then Inr []
      else case object_entries parsed of
        Inl e \<Rightarrow> Inl e
      | Inr es \<Rightarrow> forEach_err (process_item getJsonComment filename filepath) es [])"

section \<open>Auxiliary definitions for the proofs\<close>

text \<open>
  The text that a list of lines came from, and the index written as a recursion
  over the lines.
\<close>

fun join_lines :: "string list \<Rightarrow> string" where
  "join_lines [] = []"
| "join_lines [l] = l"
| "join_lines (l # l' # ls) = l @ newline # join_lines (l' # ls)"

fun index_entries :: "nat \<Rightarrow> nat \<Rightarrow> string list \<Rightarrow> line_index" where
  "index_entries c idx [] = []"
| "index_entries c idx (l # ls) = (c, idx + 1) # index_entries (c + length l + 1) (idx + 1) ls"

text \<open>The catalog read as a table from identity keys to entries.\<close>

definition ctx_key :: "GetTextTranslation \<Rightarrow> string" where
  \<comment> \<open>\<open>entry.msgctxt ?? ''\<close>\<close>
  "ctx_key entry = (case msgctxt entry of None \<Rightarrow> [] | Some c \<Rightarrow> c)"

definition lookup_entry :: "TranslationStrings \<Rightarrow> string \<Rightarrow> string \<Rightarrow> GetTextTranslation option" where
  \<comment> \<open>\<open>gettextTranslations[ctx]?.[id]\<close>\<close>
  "lookup_entry cat ctx ident =
     (case map_of cat ctx of None \<Rightarrow> None | Some inner \<Rightarrow> map_of inner ident)"

definition catalog_keys :: "TranslationStrings \<Rightarrow> (string \<times> string) list" where
  \<comment> \<open>the pairs of context key and message id of all the entries, in order\<close>
  "catalog_keys cat = concat (map (\<lambda>b. map (\<lambda>p. (fst b, fst p)) (snd b)) cat)"

definition catalog_inv :: "TranslationStrings \<Rightarrow> bool" where
  \<comment> \<open>no property name twice in an object\<close>
  "catalog_inv cat = (distinct (map fst cat) \<and> (\<forall>b \<in> set cat. distinct (map fst (snd b))))"

definition has_entry :: "TranslationStrings \<Rightarrow> GetTextTranslation \<Rightarrow> bool" where
  \<comment> \<open>the identity key of the entry is already in the catalog\<close>
  "has_entry cat e = (lookup_entry cat (ctx_key e) (msgid e) \<noteq> None)"

text \<open>
  What the loop of the code extractor needs of the regular expression object to
  advance, which is how \<open>exec\<close> behaves for a pattern with the global flag that
  matches no empty text: a match starts at or after \<open>lastIndex\<close>, is not empty and
  lies within the text. \<open>successive_matches\<close> says that a list holds the results of
  the successive calls of \<open>exec\<close>, the last of which returns \<open>null\<close>.
\<close>

definition global_matcher :: "matcher \<Rightarrow> string \<Rightarrow> bool" where
  "global_matcher regex content =
     (\<forall>lastIndex m. regex content lastIndex = Some m \<longrightarrow>
        lastIndex \<le> m_index m \<and> m_fullMatch m \<noteq> [] \<and>
        m_index m + length (m_fullMatch m) \<le> length content)"

fun successive_matches :: "matcher \<Rightarrow> string \<Rightarrow> nat \<Rightarrow> regex_match list \<Rightarrow> bool" where
  "successive_matches regex content lastIndex [] = (regex content lastIndex = None)"
| "successive_matches regex content lastIndex (m # ms) =
     (regex content lastIndex = Some m \<and>
      successive_matches regex content (m_index m + length (m_fullMatch m)) ms)"

section \<open>Parameters of the examples\<close>

text \<open>
  Modelled from the spec: \<open>getJsonComment\<close> of \<open>./json\<close> is missing. This is the mapping of
  the round-trip example of the spec (\<open>title\<close> to \<open>Block Title\<close>, \<open>tags\<close> to \<open>Block Tag\<close>,
  \<open>nested\<close> to \<open>Nested Label\<close>); any other field name passes through.
\<close>

definition example_getJsonComment :: "string \<Rightarrow> source_kind \<Rightarrow> string" where
  \<comment> \<open>Modelled from the spec: the mapping of its round-trip example, for the missing
      \<open>getJsonComment\<close>\<close>
  "example_getJsonComment term kind =
     (if term = ''title'' then ''Block Title''
      else if term = ''tags'' then ''Block Tag''
      else if term = ''nested'' then ''Nested Label''
      else term)"

text \<open>
  In the examples the regular expression object, whose pattern is not among the
  sources, is given by the matches it has in the text: \<open>exec\<close> returns the first
  listed match that starts at or after \<open>lastIndex\<close> and ends within the text.
\<close>

text \<open>
  A pattern for the examples of the pattern matcher: the call \<open>__("...")\<close> of one
  message between double quotes.
\<close>

definition example_recognise :: recogniser where
  \<open>example_recognise content p =
     (let s = drop p content;
          message = takeWhile (\<lambda>c. c \<noteq> CHR 0x22) (drop 4 s)
      in if prefix ''__("'' s \<and> prefix ''")'' (drop (4 + length message) s)
         then Some \<lparr>i_span = 4 + length message + 2, i_annotation = None, i_fnPrefix = ''__'',
                     i_msgid = message, i_plural = None, i_context = None\<rparr>
         else None)\<close>

definition listed_matches :: "regex_match list \<Rightarrow> matcher" where
  "listed_matches ms content lastIndex =
     find (\<lambda>m. lastIndex \<le> m_index m \<and> m_index m + length (m_fullMatch m) \<le> length content) ms"

section \<open>Properties of detectPatternType\<close>

lemma endsWith_includes: "str_endsWith s t \<Longrightarrow> str_includes s t"
  by (simp add: str_endsWith_def str_includes_def)

text \<open>
  C10: the two versions of \<open>detectPatternType\<close> return the same classification for
  every pattern (and every separator): a pattern that ends with the separator
  includes it, so the extra disjunct of src/utils.ts changes nothing.
\<close>

theorem detectPatternType_versions_agree:
  "detectPatternType_utils sep pattern = detectPatternType_index sep pattern"
proof -
  have "(str_includes pattern sep \<or> str_endsWith pattern sep) = str_includes pattern sep"
    using endsWith_includes by blast
  then show ?thesis
    by (simp add: detectPatternType_utils_def detectPatternType_index_def)
qed

section \<open>Properties of the position index\<close>

lemma js_split_char_Nil [simp]: "js_split [c] [] = [[]]"
  by simp

lemma js_split_char_Cons:
  "js_split [c] (x # xs) =
     (if x = c then [] # js_split [c] xs
      else (case js_split [c] xs of [] \<Rightarrow> [[x]] | p # ps \<Rightarrow> (x # p) # ps))"
  by simp

lemma js_split_char_not_Nil: "js_split [c] s \<noteq> []"
  by (induction s) (auto simp: js_split_char_Cons simp del: js_split.simps split: list.splits)

lemma js_split_char_no_sep: "l \<in> set (js_split [c] s) \<Longrightarrow> c \<notin> set l"
  by (induction s arbitrary: l) (auto simp: js_split_char_Cons simp del: js_split.simps split: list.splits if_splits)

lemma join_lines_Cons: "ls \<noteq> [] \<Longrightarrow> join_lines (l # ls) = l @ newline # join_lines ls"
  by (cases ls) auto

lemma join_lines_split: "join_lines (js_split [newline] s) = s"
proof (induction s)
  case Nil
  show ?case by simp
next
  case (Cons x xs)
  obtain p ps where sp: "js_split [newline] xs = p # ps"
    using js_split_char_not_Nil [of newline xs] by (cases "js_split [newline] xs") auto
  show ?case
  proof (cases "x = newline")
    case True
    with Cons sp show ?thesis
      by (simp add: js_split_char_Cons del: js_split.simps)
  next
    case False
    with Cons sp show ?thesis
      by (cases ps) (simp_all add: js_split_char_Cons del: js_split.simps)
  qed
qed

lemma index_entries_keys_ge: "(k, v) \<in> set (index_entries c idx ls) \<Longrightarrow> c \<le> k"
  by (induction ls arbitrary: c idx) fastforce+

lemma update_fresh: "k \<notin> fst ` set al \<Longrightarrow> AList.update k v al = al @ [(k, v)]"
  by (induction al) auto

lemma build_lineIndex_entries:
  "\<forall>k \<in> fst ` set acc. k < c \<Longrightarrow>
   build_lineIndex ls idx c acc = acc @ index_entries c idx ls"
proof (induction ls arbitrary: idx c acc)
  case Nil
  show ?case by simp
next
  case (Cons l ls)
  have fresh: "c \<notin> fst ` set acc" using Cons.prems by auto
  have "\<forall>k \<in> fst ` set (acc @ [(c, idx + 1)]). k < c + length l + 1"
    using Cons.prems by fastforce
  from Cons.IH [OF this] show ?case
    by (simp add: update_fresh [OF fresh])
qed

lemma lineIndex_of_entries: "lineIndex_of content = index_entries 0 0 (js_split [newline] content)"
  by (simp add: lineIndex_of_def build_lineIndex_entries del: js_split.simps)

lemma index_entries_sorted: "sorted (map fst (index_entries c idx ls))"
proof (induction ls arbitrary: c idx)
  case Nil
  show ?case by simp
next
  case (Cons l ls)
  have "c \<le> k" if "k \<in> fst ` set (index_entries (c + length l + 1) (idx + 1) ls)" for k
    using that index_entries_keys_ge by fastforce
  with Cons show ?case by auto
qed

lemma find_in_entries:
  "\<forall>x \<in> set (l # ls). newline \<notin> set x \<Longrightarrow> c \<le> O' \<Longrightarrow>
   map_of (index_entries c idx (l # ls))
     (findLineNumber_loop O' (map fst (index_entries c idx (l # ls))) prev)
   = Some (idx + 1 + count_list (take (O' - c) (join_lines (l # ls))) newline)"
proof (induction ls arbitrary: l c idx prev)
  case Nil
  then have "count_list (take (O' - c) l) newline = 0"
    by (metis count_list_0_iff in_set_takeD list.set_intros(1))
  with Nil show ?case by simp
next
  case (Cons l' ls)
  let ?c' = "c + length l + 1"
  let ?E = "index_entries ?c' (idx + 1) (l' # ls)"
  have nl: "newline \<notin> set l" using Cons.prems by simp
  show ?case
  proof (cases "O' < ?c'")
    case True
    then have "take (O' - c) (l @ newline # join_lines (l' # ls)) = take (O' - c) l"
      by simp
    moreover have "count_list (take (O' - c) l) newline = 0"
      using nl by (metis count_list_0_iff in_set_takeD)
    ultimately show ?thesis using True Cons.prems by simp
  next
    case False
    then have le: "?c' \<le> O'" by simp
    have rest: "\<forall>x \<in> set (l' # ls). newline \<notin> set x" using Cons.prems by simp
    let ?r = "findLineNumber_loop O' (map fst ?E) c"
    have IH: "map_of ?E ?r = Some (idx + 1 + 1 + count_list (take (O' - ?c') (join_lines (l' # ls))) newline)"
      by (rule Cons.IH [OF rest le])
    then have "?r \<in> fst ` set ?E" by (meson domI domIff map_of_eq_None_iff)
    then have "?c' \<le> ?r" using index_entries_keys_ge by fastforce
    then have neq: "?r \<noteq> c" by simp
    have "count_list (take (O' - c) (l @ newline # join_lines (l' # ls))) newline
          = 1 + count_list (take (O' - ?c') (join_lines (l' # ls))) newline"
    proof -
      have "O' - c - length l = Suc (O' - ?c')" and "length l \<le> O' - c"
        using le by simp_all
      then have "take (O' - c) (l @ newline # join_lines (l' # ls))
                 = l @ newline # take (O' - ?c') (join_lines (l' # ls))"
        by (simp only: take_append take_all take_Suc_Cons)
      then show ?thesis using nl by simp
    qed
    with IH neq Cons.prems(2) show ?thesis by simp
  qed
qed

lemma findLineNumber_loop_greatest:
  "sorted xs \<Longrightarrow> prev \<le> O' \<Longrightarrow> \<forall>x \<in> set xs. prev \<le> x \<Longrightarrow>
   prev \<le> findLineNumber_loop O' xs prev \<and>
   findLineNumber_loop O' xs prev \<le> O' \<and>
   (\<forall>x \<in> set xs. x \<le> O' \<longrightarrow> x \<le> findLineNumber_loop O' xs prev)"
proof (induction xs arbitrary: prev)
  case Nil
  then show ?case by simp
next
  case (Cons a xs)
  show ?case
  proof (cases "O' < a")
    case True
    with Cons.prems show ?thesis by auto
  next
    case False
    then have "a \<le> O'" by simp
    moreover have "sorted xs" and "\<forall>x \<in> set xs. a \<le> x" using Cons.prems(1) by simp_all
    ultimately have "a \<le> findLineNumber_loop O' xs a \<and>
       findLineNumber_loop O' xs a \<le> O' \<and>
       (\<forall>x \<in> set xs. x \<le> O' \<longrightarrow> x \<le> findLineNumber_loop O' xs a)"
      using Cons.IH by blast
    with False Cons.prems show ?thesis by auto
  qed
qed


lemma findLineNumber_newlines:
  "findLineNumber O' (lineIndex_of T) = Some (1 + count_list (take O' T) newline)"
proof -
  obtain l ls where sp: "js_split [newline] T = l # ls"
    using js_split_char_not_Nil [of newline T] by (cases "js_split [newline] T") auto
  let ?E = "index_entries 0 0 (l # ls)"
  let ?keys = "map fst ?E"
  let ?r = "findLineNumber_loop O' ?keys 0"
  have E: "lineIndex_of T = ?E"
    by (simp only: lineIndex_of_entries sp)
  have "sorted ?keys" by (rule index_entries_sorted)
  then have sort_id: "sort ?keys = ?keys" by (rule sorted_sort_id)
  have "\<forall>x \<in> set (l # ls). newline \<notin> set x"
    using js_split_char_no_sep [of _ newline T] sp by metis
  from find_in_entries [OF this, of 0 O' 0 0]
  have "map_of ?E ?r = Some (0 + 1 + count_list (take (O' - 0) (join_lines (l # ls))) newline)"
    by simp
  moreover have "join_lines (l # ls) = T"
    using join_lines_split [of T] sp by simp
  ultimately have "map_of ?E ?r = Some (1 + count_list (take O' T) newline)" by simp
  then show ?thesis
    by (simp only: findLineNumber_def E sort_id)
qed

text \<open>
  C5: for every text \<open>T\<close> and every offset \<open>O'\<close>, \<open>findLineNumber\<close> on the index built
  from \<open>T\<close> returns 1 plus the number of newline characters in the first \<open>O'\<close> code
  units of \<open>T\<close>; that line is the one whose indexed start is the greatest start
  that is at most \<open>O'\<close>. This covers an offset on a line boundary, the last line
  without terminator and empty lines.
\<close>

theorem findLineNumber_counts_newlines:
  "findLineNumber O' (lineIndex_of T) = Some (1 + count_list (take O' T) newline) \<and>
   (\<exists>start. (start, 1 + count_list (take O' T) newline) \<in> set (lineIndex_of T) \<and>
      start \<le> O' \<and> (\<forall>(s, n) \<in> set (lineIndex_of T). s \<le> O' \<longrightarrow> s \<le> start))"
proof -
  let ?I = "lineIndex_of T"
  let ?r = "findLineNumber_loop O' (sort (map fst ?I)) 0"
  let ?n = "1 + count_list (take O' T) newline"
  have first: "findLineNumber O' ?I = Some ?n" by (rule findLineNumber_newlines)
  then have "map_of ?I ?r = Some ?n" by (simp add: findLineNumber_def)
  then have mem: "(?r, ?n) \<in> set ?I" by (rule map_of_SomeD)
  have "?r \<le> O' \<and> (\<forall>x \<in> set (sort (map fst ?I)). x \<le> O' \<longrightarrow> x \<le> ?r)"
    using findLineNumber_loop_greatest [of "sort (map fst ?I)" 0 O'] by simp
  then have "?r \<le> O'" and "\<forall>(s, n) \<in> set ?I. s \<le> O' \<longrightarrow> s \<le> ?r"
    by force+
  with mem first show ?thesis by blast
qed

theorem findLineNumber_counts_newlines_witness:
  "findLineNumber 3 (lineIndex_of (''ab'' @ [newline, newline] @ ''c'')) = Some 2 \<and>
   (0, 1) \<in> set (lineIndex_of (''ab'' @ [newline, newline] @ ''c'')) \<and>
   (\<exists>start. (start, 2) \<in> set (lineIndex_of (''ab'' @ [newline, newline] @ ''c'')) \<and>
      start \<le> 3 \<and>
      (\<forall>(s, n) \<in> set (lineIndex_of (''ab'' @ [newline, newline] @ ''c'')). s \<le> 3 \<longrightarrow> s \<le> start))"
proof -
  have c: "1 + count_list (take 3 (''ab'' @ [newline, newline] @ ''c'')) newline = 2"
    by (simp add: newline_def)
  have m: "(0, 1) \<in> set (lineIndex_of (''ab'' @ [newline, newline] @ ''c''))"
    by (simp add: lineIndex_of_def newline_def)
  from findLineNumber_counts_newlines [of 3 "''ab'' @ [newline, newline] @ ''c''"] m
  show ?thesis unfolding c by blast
qed

section \<open>Properties of the catalog extractor\<close>

lemma fold_push_matching:
  "fold (push_matching st) rules acc =
     acc @ map (\<lambda>rule. \<lparr>translationKey = array_first (snd rule), r_msgid = f_msgid st,
                          r_msgstr = f_msgstr st, r_msgctxt = f_msgctxt st,
                          r_comments = f_comments st\<rparr>)
             (filter (\<lambda>rule. prefix (fst rule) (f_msgid st)) rules)"
  by (induction rules arbitrary: acc) (simp_all add: push_matching_def str_startsWith_def)

lemma fold_process_entry:
  "fold (process_entry rules) entries acc =
     acc @ concat (map (\<lambda>entry. fold (push_matching (parse_entry entry)) rules []) entries)"
proof (induction entries arbitrary: acc)
  case Nil
  show ?case by simp
next
  case (Cons e es)
  have "process_entry rules e acc = acc @ fold (push_matching (parse_entry e)) rules []"
    by (simp add: process_entry_def fold_push_matching)
  then show ?case
    by (simp add: Cons.IH)
qed

text \<open>
  C6: \<open>extractTranslations\<close> cuts the text at every blank line (\<open>split('\n\n')\<close>) and
  returns, block after block, one record for each configured rule whose key is a
  prefix of the \<open>msgid\<close> recovered from the block, in the order of the rules. The
  record carries the label of the rule, which is the first element of the rule's
  array (undefined for an empty array), as \<open>translationKey\<close>, and the four fields
  recovered from the block. A block whose \<open>msgid\<close> no key is a prefix of gives no
  record, so the number of records is the sum over the blocks of the numbers of
  matching rules. For two blocks, one whose \<open>msgid\<close> matches the first of two rules
  and one that matches none, the result is the one record with the first label
  of that rule.
\<close>

theorem extractTranslations_records:
  \<open>extractTranslations prefixRules content =
     concat (map (\<lambda>entry.
        map (\<lambda>rule. \<lparr>translationKey = (case snd rule of [] \<Rightarrow> None | label # _ \<Rightarrow> Some label),
                       r_msgid = f_msgid (parse_entry entry),
                       r_msgstr = f_msgstr (parse_entry entry),
                       r_msgctxt = f_msgctxt (parse_entry entry),
                       r_comments = f_comments (parse_entry entry)\<rparr>)
          (filter (\<lambda>rule. prefix (fst rule) (f_msgid (parse_entry entry))) prefixRules))
        (js_split [newline, newline] content)) \<and>
   length (extractTranslations prefixRules content) =
     sum_list (map (\<lambda>entry.
        length (filter (\<lambda>rule. prefix (fst rule) (f_msgid (parse_entry entry))) prefixRules))
        (js_split [newline, newline] content)) \<and>
   extractTranslations
     [(''"Plugin Name'', [''Name of the plugin'', ''plugin'']),
      (''"Description'', [''Description of the plugin''])]
     (''# translators: header'' @ [newline] @ ''msgctxt "ctx"'' @ [newline] @
      ''msgid "Plugin Name"'' @ [newline] @ ''msgstr "Nom"'' @ [newline, newline] @
      ''msgid "Unrelated"'' @ [newline] @ ''msgstr ""'') =
   [\<lparr>translationKey = Some ''Name of the plugin'', r_msgid = ''"Plugin Name"'',
      r_msgstr = ''"Nom"'', r_msgctxt = ''"ctx"'',
      r_comments = ''translators: header'' @ [newline]\<rparr>]\<close>
proof -
  have eq: "extractTranslations prefixRules content =
     concat (map (\<lambda>entry.
        map (\<lambda>rule. \<lparr>translationKey = (case snd rule of [] \<Rightarrow> None | label # _ \<Rightarrow> Some label),
                       r_msgid = f_msgid (parse_entry entry),
                       r_msgstr = f_msgstr (parse_entry entry),
                       r_msgctxt = f_msgctxt (parse_entry entry),
                       r_comments = f_comments (parse_entry entry)\<rparr>)
          (filter (\<lambda>rule. prefix (fst rule) (f_msgid (parse_entry entry))) prefixRules))
        (js_split [newline, newline] content))"
    by (simp add: extractTranslations_def fold_process_entry fold_push_matching array_first_def
        del: js_split.simps)
  have len: "length (extractTranslations prefixRules content) =
     sum_list (map (\<lambda>entry.
        length (filter (\<lambda>rule. prefix (fst rule) (f_msgid (parse_entry entry))) prefixRules))
        (js_split [newline, newline] content))"
    by (simp only: eq length_concat map_map comp_def length_map)
  have ex: \<open>extractTranslations
     [(''"Plugin Name'', [''Name of the plugin'', ''plugin'']),
      (''"Description'', [''Description of the plugin''])]
     (''# translators: header'' @ [newline] @ ''msgctxt "ctx"'' @ [newline] @
      ''msgid "Plugin Name"'' @ [newline] @ ''msgstr "Nom"'' @ [newline, newline] @
      ''msgid "Unrelated"'' @ [newline] @ ''msgstr ""'') =
   [\<lparr>translationKey = Some ''Name of the plugin'', r_msgid = ''"Plugin Name"'',
      r_msgstr = ''"Nom"'', r_msgctxt = ''"ctx"'',
      r_comments = ''translators: header'' @ [newline]\<rparr>]\<close>
    by (simp add: extractTranslations_def process_entry_def parse_entry_def classify_line_def
      push_matching_def str_startsWith_def array_first_def trim_def is_whitespace_def newline_def)
  from eq len ex show ?thesis by (intro conjI)
qed

text \<open>
  Two blocks, the first matching one rule and the second none: one record. The
  recovered \<open>msgid\<close> is what follows \<open>msgid\<close> and a space on the line, trimmed: it keeps
  the double quotes, so a key without the opening quote matches no such line.
\<close>

lemma extractTranslations_two_blocks:
  \<open>extractTranslations [(''"Plugin Name'', [''Name of the plugin'']), (''"Description'', [''Description of the plugin''])]
     (''msgid "Plugin Name"'' @ [newline] @ ''msgstr ""'' @ [newline, newline] @
      ''msgid "Unrelated"'' @ [newline] @ ''msgstr ""'') =
   [\<lparr>translationKey = Some ''Name of the plugin'', r_msgid = ''"Plugin Name"'',
      r_msgstr = ''""'', r_msgctxt = [], r_comments = []\<rparr>]\<close>
  by (simp add: extractTranslations_def process_entry_def parse_entry_def classify_line_def
      push_matching_def str_startsWith_def array_first_def trim_def is_whitespace_def newline_def)

lemma extractTranslations_unquoted_prefix:
  \<open>extractTranslations [(''Plugin Name'', [''Name of the plugin''])]
     (''msgid "Plugin Name"'' @ [newline] @ ''msgstr ""'') = []\<close>
  by (simp add: extractTranslations_def process_entry_def parse_entry_def classify_line_def
      push_matching_def str_startsWith_def array_first_def trim_def is_whitespace_def newline_def)

section \<open>Properties of the catalog: store_entry\<close>

lemma store_entry_alt:
  "store_entry e cat =
     AList.update (ctx_key e)
       (AList.update (msgid e) e (case map_of cat (ctx_key e) of None \<Rightarrow> [] | Some inner \<Rightarrow> inner))
       cat"
  by (simp add: store_entry_def ctx_key_def Let_def)

lemma lookup_store_same: "lookup_entry (store_entry e cat) (ctx_key e) (msgid e) = Some e"
  by (simp add: store_entry_alt lookup_entry_def update_conv')

lemma lookup_store_other:
  "(c, i) \<noteq> (ctx_key e, msgid e) \<Longrightarrow> lookup_entry (store_entry e cat) c i = lookup_entry cat c i"
  by (auto simp: store_entry_alt lookup_entry_def update_conv' split: option.splits)

lemma map_fst_update_present:
  "k \<in> fst ` set al \<Longrightarrow> map fst (AList.update k v al) = map fst al"
  by (induction al) auto

lemma catalog_keys_update:
  "map_of cat c = Some inner \<Longrightarrow> map fst X = map fst inner \<Longrightarrow>
   catalog_keys (AList.update c X cat) = catalog_keys cat"
proof (induction cat)
  case Nil
  then show ?case by simp
next
  case (Cons b cat)
  show ?case
  proof (cases "fst b = c")
    case True
    with Cons.prems have "snd b = inner" by (cases b) simp
    then have "map (\<lambda>p. (c, fst p)) X = map (\<lambda>p. (c, fst p)) (snd b)"
      using Cons.prems(2) by (metis (no_types, lifting) map_map comp_def map_eq_conv)
    with True show ?thesis by (simp add: catalog_keys_def)
  next
    case False
    with Cons.prems have "map_of cat c = Some inner" by (cases b) simp
    from Cons.IH [OF this Cons.prems(2)] False show ?thesis
      by (simp add: catalog_keys_def)
  qed
qed

lemma store_existing_keys:
  assumes "lookup_entry cat (ctx_key e) (msgid e) = Some old"
  shows "catalog_keys (store_entry e cat) = catalog_keys cat"
proof -
  from assms obtain inner where inner: "map_of cat (ctx_key e) = Some inner"
    and old: "map_of inner (msgid e) = Some old"
    by (auto simp: lookup_entry_def split: option.splits)
  from old have "msgid e \<in> fst ` set inner"
    by (meson domI domIff map_of_eq_None_iff)
  then have "map fst (AList.update (msgid e) e inner) = map fst inner"
    by (rule map_fst_update_present)
  from catalog_keys_update [OF inner this] inner show ?thesis
    by (simp add: store_entry_alt)
qed

lemma update_swap_present:
  "k \<noteq> k' \<Longrightarrow> k \<in> fst ` set al \<Longrightarrow>
   AList.update k v (AList.update k' v' al) = AList.update k' v' (AList.update k v al)"
  by (induction al) auto

lemma map_of_present: "map_of al k = Some v \<Longrightarrow> k \<in> fst ` set al"
  by (meson domI domIff map_of_eq_None_iff)

lemma store_absorb:
  assumes "ctx_key e = ctx_key e'" "msgid e = msgid e'"
  shows "store_entry e (store_entry e' cat) = store_entry e cat"
  using assms by (simp add: store_entry_alt update_conv')

lemma store_swap:
  assumes present: "has_entry cat e"
    and differ: "(ctx_key e, msgid e) \<noteq> (ctx_key e', msgid e')"
  shows "store_entry e (store_entry e' cat) = store_entry e' (store_entry e cat)"
proof -
  from present obtain inner where inner: "map_of cat (ctx_key e) = Some inner"
    and ident: "msgid e \<in> fst ` set inner"
    by (auto simp: has_entry_def lookup_entry_def split: option.splits dest: map_of_present)
  have outer: "ctx_key e \<in> fst ` set cat" using inner by (rule map_of_present)
  show ?thesis
  proof (cases "ctx_key e = ctx_key e'")
    case True
    with differ have "msgid e \<noteq> msgid e'" by simp
    from update_swap_present [OF this ident]
    have "AList.update (msgid e) e (AList.update (msgid e') e' inner)
          = AList.update (msgid e') e' (AList.update (msgid e) e inner)" .
    with True inner show ?thesis
      by (simp add: store_entry_alt update_conv')
  next
    case False
    with inner outer show ?thesis
      by (simp add: store_entry_alt update_conv' update_swap_present [OF False outer])
  qed
qed

lemma has_entry_store: "has_entry (store_entry e cat) e"
  by (simp add: has_entry_def lookup_store_same)

lemma has_entry_preserved: "has_entry cat e \<Longrightarrow> has_entry (store_entry e' cat) e"
  by (cases "(ctx_key e, msgid e) = (ctx_key e', msgid e')")
     (auto simp: has_entry_def lookup_store_other lookup_store_same)

lemma has_entry_fold: "has_entry cat e \<Longrightarrow> has_entry (fold store_entry es cat) e"
  by (induction es arbitrary: cat) (simp_all add: has_entry_preserved)

lemma has_entry_fold_mem: "e \<in> set es \<Longrightarrow> has_entry (fold store_entry es cat) e"
proof (induction es arbitrary: cat)
  case Nil
  then show ?case by simp
next
  case (Cons x es)
  show ?case
  proof (cases "e = x")
    case True
    then show ?thesis by (simp add: has_entry_fold has_entry_store)
  next
    case False
    with Cons show ?thesis by simp
  qed
qed

lemma store_after_fold_absorb:
  "\<forall>x \<in> set es. has_entry cat x \<Longrightarrow>
   store_entry e (fold store_entry es (store_entry e cat)) = store_entry e (fold store_entry es cat)"
proof (induction es arbitrary: cat)
  case Nil
  show ?case by (simp add: store_absorb)
next
  case (Cons x es)
  have later: "\<forall>y \<in> set es. has_entry (store_entry x cat) y"
    using Cons.prems by (simp add: has_entry_preserved)
  show ?case
  proof (cases "(ctx_key x, msgid x) = (ctx_key e, msgid e)")
    case True
    then have "store_entry x (store_entry e cat) = store_entry x cat"
      by (simp add: store_absorb)
    then show ?thesis by simp
  next
    case False
    have "has_entry cat x" using Cons.prems by simp
    from store_swap [OF this False]
    have "store_entry x (store_entry e cat) = store_entry e (store_entry x cat)" .
    with Cons.IH [OF later] show ?thesis by simp
  qed
qed

lemma fold_store_idem:
  "fold store_entry es (fold store_entry es cat) = fold store_entry es cat"
proof (induction es rule: rev_induct)
  case Nil
  show ?case by simp
next
  case (snoc e es)
  let ?d = "fold store_entry es cat"
  have "\<forall>x \<in> set es. has_entry ?d x" by (simp add: has_entry_fold_mem)
  from store_after_fold_absorb [OF this]
  have "store_entry e (fold store_entry es (store_entry e ?d)) = store_entry e (fold store_entry es ?d)" .
  with snoc show ?case by simp
qed

lemma catalog_inv_store: "catalog_inv cat \<Longrightarrow> catalog_inv (store_entry e cat)"
proof -
  assume inv: "catalog_inv cat"
  let ?inner = "case map_of cat (ctx_key e) of None \<Rightarrow> [] | Some inner \<Rightarrow> inner"
  have "distinct (map fst ?inner)"
    using inv by (auto simp: catalog_inv_def split: option.splits dest!: map_of_SomeD)
  then have new: "distinct (map fst (AList.update (msgid e) e ?inner))"
    by (rule distinct_update)
  let ?X = "AList.update (msgid e) e ?inner"
  have sub: "set (AList.update (ctx_key e) ?X cat) \<subseteq> insert (ctx_key e, ?X) (set cat)"
    by (induction cat) auto
  have outer: "distinct (map fst (store_entry e cat))"
    using inv by (simp add: store_entry_alt catalog_inv_def distinct_update)
  have "distinct (map fst (snd b))" if "b \<in> set (store_entry e cat)" for b
  proof -
    from that sub have "b = (ctx_key e, ?X) \<or> b \<in> set cat"
      unfolding store_entry_alt by blast
    then show ?thesis
      using new inv by (auto simp: catalog_inv_def)
  qed
  with outer show ?thesis
    by (simp add: catalog_inv_def)
qed

lemma catalog_inv_fold: "catalog_inv cat \<Longrightarrow> catalog_inv (fold store_entry es cat)"
  by (induction es arbitrary: cat) (simp_all add: catalog_inv_store)

lemma catalog_inv_distinct_keys: "catalog_inv cat \<Longrightarrow> distinct (catalog_keys cat)"
proof (induction cat)
  case Nil
  show ?case by (simp add: catalog_keys_def)
next
  case (Cons b cat)
  then have "catalog_inv cat" by (simp add: catalog_inv_def)
  with Cons.IH have IH: "distinct (catalog_keys cat)" by simp
  have head: "distinct (map (\<lambda>p. (fst b, fst p)) (snd b))"
    using Cons.prems by (simp add: catalog_inv_def distinct_map inj_on_def comp_def)
  have "fst k \<in> fst ` set cat" if "k \<in> set (catalog_keys cat)" for k
    using that by (force simp: catalog_keys_def)
  moreover have "fst b \<notin> fst ` set cat" using Cons.prems by (simp add: catalog_inv_def)
  ultimately have "set (map (\<lambda>p. (fst b, fst p)) (snd b)) \<inter> set (catalog_keys cat) = {}"
    by fastforce
  with IH head show ?case
    by (simp add: catalog_keys_def)
qed

lemma catalog_keys_lookup:
  "catalog_inv cat \<Longrightarrow> ((c, i) \<in> set (catalog_keys cat)) = (lookup_entry cat c i \<noteq> None)"
proof -
  assume inv: "catalog_inv cat"
  then have d: "distinct (map fst cat)" by (simp add: catalog_inv_def)
  have "((c, i) \<in> set (catalog_keys cat)) = (\<exists>inner. (c, inner) \<in> set cat \<and> i \<in> fst ` set inner)"
    by (force simp: catalog_keys_def)
  also have "\<dots> = (\<exists>inner. map_of cat c = Some inner \<and> i \<in> fst ` set inner)"
    using d by simp
  also have "\<dots> = (lookup_entry cat c i \<noteq> None)"
  proof -
    have "(i \<in> fst ` set inner) = (map_of inner i \<noteq> None)" for inner :: "(string \<times> GetTextTranslation) list"
      by (simp add: map_of_eq_None_iff)
    then show ?thesis
      by (cases "map_of cat c") (simp_all add: lookup_entry_def)
  qed
  finally show ?thesis .
qed

lemma catalog_keys_store:
  assumes "catalog_inv cat"
  shows "set (catalog_keys (store_entry e cat)) = insert (ctx_key e, msgid e) (set (catalog_keys cat))"
proof -
  have inv': "catalog_inv (store_entry e cat)" using assms by (rule catalog_inv_store)
  have "(k \<in> set (catalog_keys (store_entry e cat))) =
        (k \<in> insert (ctx_key e, msgid e) (set (catalog_keys cat)))" for k
  proof (cases k)
    case (Pair c i)
    show ?thesis
    proof (cases "(c, i) = (ctx_key e, msgid e)")
      case True
      with Pair show ?thesis
        using catalog_keys_lookup [OF inv', of c i] by (simp add: lookup_store_same)
    next
      case False
      with Pair show ?thesis
        using catalog_keys_lookup [OF inv', of c i] catalog_keys_lookup [OF assms, of c i]
          lookup_store_other [OF False, of cat]
        by auto
    qed
  qed
  then show ?thesis by blast
qed

lemma catalog_keys_fold:
  "catalog_inv cat \<Longrightarrow>
   set (catalog_keys (fold store_entry es cat)) =
     set (catalog_keys cat) \<union> (\<lambda>e. (ctx_key e, msgid e)) ` set es"
proof (induction es arbitrary: cat)
  case Nil
  show ?case by simp
next
  case (Cons e es)
  have "catalog_inv (store_entry e cat)" using Cons.prems by (rule catalog_inv_store)
  from Cons.IH [OF this] show ?case
    by (simp add: catalog_keys_store [OF Cons.prems])
qed

section \<open>Properties of the structured-data extractor\<close>

lemmas yield_eval =
  yieldParsedData_def process_item_def store_inner_def storeTranslation_def store_entry_def
  gentranslation_def example_getJsonComment_def Let_def

text \<open>
  C1 (a string value, each element of a sequence and each inner string value are
  stored under their own text as message id): the body of \<open>storeTranslation\<close> stores
  \<open>valueKey\<close>, which is the field name or the inner key, and never \<open>value\<close>. On the
  example of the spec the result has three entries, with the message ids \<open>title\<close>,
  \<open>tags\<close> and \<open>x\<close>; none of \<open>Hello\<close>, \<open>a\<close>, \<open>b\<close>, \<open>y\<close> is a message id.
\<close>

theorem yieldParsedData_example:
  "yieldParsedData example_getJsonComment
     (JObj [(''title'', JStr ''Hello''),
            (''tags'', JArr [JStr ''a'', JStr ''b'']),
            (''nested'', JObj [(''x'', JStr ''y'')])])
     BlockJson ''block.json'' =
   Inr [([],
     [(''title'', \<lparr>msgctxt = None, msgid = ''title'', msgid_plural = [], msgstr = [],
         comments = \<lparr>extracted = ''Block Title'', reference = Some ''block.json''\<rparr>\<rparr>),
      (''tags'', \<lparr>msgctxt = None, msgid = ''tags'', msgid_plural = [], msgstr = [],
         comments = \<lparr>extracted = ''Block Tag'', reference = Some ''block.json''\<rparr>\<rparr>),
      (''x'', \<lparr>msgctxt = None, msgid = ''x'', msgid_plural = [], msgstr = [],
         comments = \<lparr>extracted = ''Nested Label'', reference = Some ''block.json''\<rparr>\<rparr>)])]"
  by (simp add: yield_eval)

text \<open>
  C2, as stated (an entry that exists keeps its comments and gets the new
  reference appended): two fields whose nested objects share the inner key \<open>k\<close>
  give one entry; its comment is the label of the second field, and its
  reference is the one path.
\<close>

theorem storeTranslation_overwrites_counterexample:
  "yieldParsedData example_getJsonComment
     (JObj [(''title'', JObj [(''k'', JStr ''v'')]),
            (''tags'', JObj [(''k'', JStr ''w'')])])
     BlockJson ''block.json'' =
   Inr [([],
     [(''k'', \<lparr>msgctxt = None, msgid = ''k'', msgid_plural = [], msgstr = [],
         comments = \<lparr>extracted = ''Block Tag'', reference = Some ''block.json''\<rparr>\<rparr>)])]"
  by (simp add: yield_eval)

text \<open>
  C2, amended: the assignment of \<open>storeTranslation\<close> puts the new entry in the place
  of the one that the identity key had, so the entry read back is the new one,
  with its comments and its reference; the keys of the catalog stay as they were
  when the key was there; every other key keeps its entry; and merging a sequence
  of entries twice gives the catalog that merging it once gives.
\<close>

theorem store_entry_replaces:
  "lookup_entry (store_entry e cat) (ctx_key e) (msgid e) = Some e \<and>
   (lookup_entry cat (ctx_key e) (msgid e) \<noteq> None \<longrightarrow>
      catalog_keys (store_entry e cat) = catalog_keys cat) \<and>
   (\<forall>c i. (c, i) \<noteq> (ctx_key e, msgid e) \<longrightarrow>
      lookup_entry (store_entry e cat) c i = lookup_entry cat c i) \<and>
   fold store_entry (es @ es) [] = fold store_entry es []"
proof -
  have "catalog_keys (store_entry e cat) = catalog_keys cat"
    if "lookup_entry cat (ctx_key e) (msgid e) \<noteq> None"
    using that store_existing_keys [of cat e] by auto
  then show ?thesis
    by (simp add: lookup_store_same lookup_store_other fold_store_idem del: split_paired_All)
qed

theorem store_entry_replaces_witness:
  "lookup_entry (store_entry (gentranslation ''first'' ''k'' (Some ''a.json'')) [])
     (ctx_key (gentranslation ''second'' ''k'' (Some ''b.json'')))
     (msgid (gentranslation ''second'' ''k'' (Some ''b.json''))) \<noteq> None \<and>
   lookup_entry
     (store_entry (gentranslation ''second'' ''k'' (Some ''b.json''))
        (store_entry (gentranslation ''first'' ''k'' (Some ''a.json'')) []))
     [] ''k'' = Some (gentranslation ''second'' ''k'' (Some ''b.json'')) \<and>
   catalog_keys
     (store_entry (gentranslation ''second'' ''k'' (Some ''b.json''))
        (store_entry (gentranslation ''first'' ''k'' (Some ''a.json'')) [])) =
   catalog_keys (store_entry (gentranslation ''first'' ''k'' (Some ''a.json'')) []) \<and>
   (([], ''j'') \<noteq> ([], ''k'') \<and>
    lookup_entry
     (store_entry (gentranslation ''second'' ''k'' (Some ''b.json''))
        (store_entry (gentranslation ''first'' ''k'' (Some ''a.json'')) []))
     [] ''j'' = None)"
proof -
  let ?e1 = "gentranslation ''first'' ''k'' (Some ''a.json'')"
  let ?e2 = "gentranslation ''second'' ''k'' (Some ''b.json'')"
  have k: "ctx_key ?e2 = []" "msgid ?e2 = ''k''"
    by (simp_all add: ctx_key_def gentranslation_def)
  have pre: "lookup_entry (store_entry ?e1 []) (ctx_key ?e2) (msgid ?e2) \<noteq> None"
    by (simp add: lookup_entry_def store_entry_def ctx_key_def gentranslation_def)
  have other: "lookup_entry (store_entry ?e1 []) [] ''j'' = None"
    by (simp add: lookup_entry_def store_entry_def ctx_key_def gentranslation_def)
  from store_entry_replaces [of ?e2 "store_entry ?e1 []" "[]"] pre other
  show ?thesis unfolding k by auto
qed

text \<open>
  C9: a catalog in which no key occurs twice stays so after any sequence of
  merges; the pairs of context key and message id of its entries are distinct and
  are those it had and those of the merged entries; merging an entry whose pair is
  there adds no entry; an entry without context is found under the empty
  string.
\<close>

theorem catalog_one_entry_per_key:
  assumes "catalog_inv cat"
  shows "catalog_inv (fold store_entry es cat) \<and>
    distinct (catalog_keys (fold store_entry es cat)) \<and>
    set (catalog_keys (fold store_entry es cat)) =
      set (catalog_keys cat) \<union> (\<lambda>e. (ctx_key e, msgid e)) ` set es \<and>
    (\<forall>e \<in> set es.
       lookup_entry (fold store_entry es cat) (ctx_key e) (msgid e) \<noteq> None \<and>
       catalog_keys (store_entry e (fold store_entry es cat)) = catalog_keys (fold store_entry es cat) \<and>
       (msgctxt e = None \<longrightarrow> ([], msgid e) \<in> set (catalog_keys (fold store_entry es cat))))"
proof -
  let ?cat' = "fold store_entry es cat"
  have inv: "catalog_inv ?cat'" using assms by (rule catalog_inv_fold)
  have keys: "set (catalog_keys ?cat') = set (catalog_keys cat) \<union> (\<lambda>e. (ctx_key e, msgid e)) ` set es"
    using assms by (rule catalog_keys_fold)
  have each: "lookup_entry ?cat' (ctx_key e) (msgid e) \<noteq> None \<and>
       catalog_keys (store_entry e ?cat') = catalog_keys ?cat' \<and>
       (msgctxt e = None \<longrightarrow> ([], msgid e) \<in> set (catalog_keys ?cat'))" if "e \<in> set es" for e
  proof -
    have present: "lookup_entry ?cat' (ctx_key e) (msgid e) \<noteq> None"
      using has_entry_fold_mem [OF that, of cat] by (simp add: has_entry_def)
    then have same: "catalog_keys (store_entry e ?cat') = catalog_keys ?cat'"
      using store_existing_keys [of ?cat' e] by auto
    have "(ctx_key e, msgid e) \<in> set (catalog_keys ?cat')"
      using keys that by blast
    then have "msgctxt e = None \<longrightarrow> ([], msgid e) \<in> set (catalog_keys ?cat')"
      by (auto simp: ctx_key_def)
    with present same show ?thesis by blast
  qed
  from inv keys each catalog_inv_distinct_keys [OF inv] show ?thesis by blast
qed

theorem catalog_one_entry_per_key_witness:
  "catalog_inv [] \<and>
   gentranslation ''first'' ''k'' (Some ''a.json'') \<in>
     set [gentranslation ''first'' ''k'' (Some ''a.json''), gentranslation ''second'' ''k'' (Some ''a.json'')] \<and>
   msgctxt (gentranslation ''first'' ''k'' (Some ''a.json'')) = None \<and>
   catalog_keys (fold store_entry
     [gentranslation ''first'' ''k'' (Some ''a.json''), gentranslation ''second'' ''k'' (Some ''a.json'')] [])
     = [([], ''k'')] \<and>
   distinct (catalog_keys (fold store_entry
     [gentranslation ''first'' ''k'' (Some ''a.json''), gentranslation ''second'' ''k'' (Some ''a.json'')] [])) \<and>
   ([], ''k'') \<in> set (catalog_keys (fold store_entry
     [gentranslation ''first'' ''k'' (Some ''a.json''), gentranslation ''second'' ''k'' (Some ''a.json'')] []))"
proof -
  let ?es = "[gentranslation ''first'' ''k'' (Some ''a.json''), gentranslation ''second'' ''k'' (Some ''a.json'')]"
  have inv: "catalog_inv []" by (simp add: catalog_inv_def)
  have ev: "catalog_keys (fold store_entry ?es []) = [([], ''k'')]"
    by (simp add: catalog_keys_def store_entry_def gentranslation_def)
  have n: "msgctxt (gentranslation ''first'' ''k'' (Some ''a.json'')) = None"
    "msgid (gentranslation ''first'' ''k'' (Some ''a.json'')) = ''k''"
    by (simp_all add: gentranslation_def)
  from catalog_one_entry_per_key [OF inv, of ?es]
  have "distinct (catalog_keys (fold store_entry ?es []))"
    and "\<forall>e \<in> set ?es. msgctxt e = None \<longrightarrow> ([], msgid e) \<in> set (catalog_keys (fold store_entry ?es []))"
    by blast+
  then have "distinct (catalog_keys (fold store_entry ?es []))"
    and "([], ''k'') \<in> set (catalog_keys (fold store_entry ?es []))"
    using n by auto
  with inv ev n show ?thesis by simp
qed


section \<open>Properties of the code extractor\<close>

lemma exec_loop_chain:
  "successive_matches regex content lastIndex ms \<Longrightarrow>
   exec_loop regex content filename slug idx lastIndex ts lg =
     Some (ts @ map (\<lambda>m. make_translation filename (findLineNumber (m_index m) idx) m) ms,
           lg @ concat (map (\<lambda>m. slug_check filename (findLineNumber (m_index m) idx) slug (m_msgctxt m)) ms))"
proof (induction ms arbitrary: lastIndex ts lg)
  case Nil
  then show ?case by (subst exec_loop.simps) simp
next
  case (Cons m ms)
  then have m: "regex content lastIndex = Some m"
    and rest: "successive_matches regex content (m_index m + length (m_fullMatch m)) ms"
    by simp_all
  show ?case
    by (subst exec_loop.simps) (simp add: m Cons.IH [OF rest] Let_def)
qed

lemma matches_exist:
  assumes gm: "global_matcher regex content"
  shows "lastIndex \<le> length content \<Longrightarrow>
    \<exists>ms. successive_matches regex content lastIndex ms \<and>
      (\<forall>m \<in> set ms. lastIndex \<le> m_index m) \<and>
      sorted_wrt (\<lambda>a b. m_index a + length (m_fullMatch a) \<le> m_index b) ms \<and>
      sorted_wrt (\<lambda>a b. m_index a < m_index b) ms \<and>
      length ms \<le> length content - lastIndex"
proof (induction "length content - lastIndex" arbitrary: lastIndex rule: less_induct)
  case less
  show ?case
  proof (cases "regex content lastIndex")
    case None
    then have "successive_matches regex content lastIndex []" by simp
    then show ?thesis by (intro exI [of _ "[]"]) simp
  next
    case (Some m)
    let ?e = "m_index m + length (m_fullMatch m)"
    from gm Some have start: "lastIndex \<le> m_index m" and ne: "m_fullMatch m \<noteq> []"
      and bound: "?e \<le> length content"
      by (auto simp: global_matcher_def)
    from ne have pos: "0 < length (m_fullMatch m)" by simp
    with start bound have dec: "length content - ?e < length content - lastIndex"
      by linarith
    from less.hyps [OF dec bound] obtain ms where
      chain: "successive_matches regex content ?e ms"
      and after: "\<forall>m' \<in> set ms. ?e \<le> m_index m'"
      and s1: "sorted_wrt (\<lambda>a b. m_index a + length (m_fullMatch a) \<le> m_index b) ms"
      and s2: "sorted_wrt (\<lambda>a b. m_index a < m_index b) ms"
      and len: "length ms \<le> length content - ?e"
      by blast
    have "successive_matches regex content lastIndex (m # ms)"
      using Some chain by simp
    moreover have "\<forall>m' \<in> set (m # ms). lastIndex \<le> m_index m'"
    proof -
      have "lastIndex \<le> m_index m'" if "m' \<in> set ms" for m' :: regex_match
      proof -
        from after that have "m_index m + length (m_fullMatch m) \<le> m_index m'" by blast
        with start show ?thesis by linarith
      qed
      with start show ?thesis by simp
    qed
    moreover have "sorted_wrt (\<lambda>a b. m_index a + length (m_fullMatch a) \<le> m_index b) (m # ms)"
      using s1 after by simp
    moreover have "sorted_wrt (\<lambda>a b. m_index a < m_index b) (m # ms)"
    proof -
      have "m_index m < m_index m'" if "m' \<in> set ms" for m' :: regex_match
      proof -
        from after that have "m_index m + length (m_fullMatch m) \<le> m_index m'" by blast
        with pos show ?thesis by linarith
      qed
      with s2 show ?thesis by simp
    qed
    moreover have "length (m # ms) \<le> length content - lastIndex"
      using len dec by simp
    ultimately show ?thesis by blast
  qed
qed

lemma listed_matches_global:
  "\<forall>m \<in> set ms. m_fullMatch m \<noteq> [] \<Longrightarrow> global_matcher (listed_matches ms) content"
  by (auto simp: global_matcher_def listed_matches_def find_Some_iff)

lemmas code_eval =
  extractTranslationsFromCode_def listed_matches_def make_translation_def slug_check_def
  show_lineNumber_def findLineNumber_def lineIndex_of_def newline_def Let_def

lemma pattern_matcher_global: "global_matcher (pattern_matcher recognise) content"
proof -
  have "lastIndex \<le> m_index m \<and> m_fullMatch m \<noteq> [] \<and>
        m_index m + length (m_fullMatch m) \<le> length content"
    if "pattern_matcher recognise content lastIndex = Some m" for lastIndex m
  proof -
    from that obtain p call where
      found: "find (recognised_at recognise content) [lastIndex..<length content] = Some p"
      and call: "recognise content p = Some call"
      and m: "m = \<lparr>m_index = p, m_fullMatch = take (i_span call) (drop p content),
                     m_translatorComment = i_annotation call,
                     m_fnPrefix = Some (i_fnPrefix call),
                     m_msgid = Some (i_msgid call),
                     m_msgctxt = i_context call\<rparr>"
      by (auto simp: pattern_matcher_def split: option.splits)
    from found have "p \<in> set [lastIndex..<length content]" and "recognised_at recognise content p"
      by (auto simp: find_Some_iff)
    with call have "lastIndex \<le> p" and "0 < i_span call" and "p + i_span call \<le> length content"
      by (simp_all add: recognised_at_def)
    then show ?thesis
      by (auto simp: m)
  qed
  then show ?thesis
    unfolding global_matcher_def by blast
qed

text \<open>
  C7: for every pattern and every text, the loop driven by the pattern matcher
  ends: there is a finite list of successive matches, the extractor returns the
  occurrences of these matches in that order, the starts of the matches increase
  strictly, no match begins before the end of the one before, and there are at
  most as many matches as code units.
\<close>

theorem exec_loop_terminates_in_order:
  "\<exists>ms. successive_matches (pattern_matcher recognise) content 0 ms \<and>
    extractTranslationsFromCode (pattern_matcher recognise) content filename slug =
      Some (map (\<lambda>m. make_translation filename (findLineNumber (m_index m) (lineIndex_of content)) m) ms,
            concat (map (\<lambda>m. slug_check filename (findLineNumber (m_index m) (lineIndex_of content)) slug
                                (m_msgctxt m)) ms)) \<and>
    sorted_wrt (\<lambda>a b. m_index a < m_index b) ms \<and>
    sorted_wrt (\<lambda>a b. m_index a + length (m_fullMatch a) \<le> m_index b) ms \<and>
    length ms \<le> length content"
proof -
  have gm: "global_matcher (pattern_matcher recognise) content"
    by (rule pattern_matcher_global)
  from matches_exist [OF gm, of 0] obtain ms where
    chain: "successive_matches (pattern_matcher recognise) content 0 ms"
    and s1: "sorted_wrt (\<lambda>a b. m_index a + length (m_fullMatch a) \<le> m_index b) ms"
    and s2: "sorted_wrt (\<lambda>a b. m_index a < m_index b) ms"
    and len: "length ms \<le> length content"
    by auto
  from exec_loop_chain [OF chain, of filename slug "lineIndex_of content" "[]" "[]"]
  have "extractTranslationsFromCode (pattern_matcher recognise) content filename slug =
      Some (map (\<lambda>m. make_translation filename (findLineNumber (m_index m) (lineIndex_of content)) m) ms,
            concat (map (\<lambda>m. slug_check filename (findLineNumber (m_index m) (lineIndex_of content)) slug
                                (m_msgctxt m)) ms))"
    by (simp add: extractTranslationsFromCode_def)
  with chain s1 s2 len show ?thesis by blast
qed

theorem exec_loop_terminates_in_order_witness:
  \<open>\<exists>ms. successive_matches (pattern_matcher example_recognise)
       (''__("a");'' @ [newline] @ ''__("bc"); x("d")'') 0 ms \<and>
     extractTranslationsFromCode (pattern_matcher example_recognise)
       (''__("a");'' @ [newline] @ ''__("bc"); x("d")'') ''plugin.php'' ''my-plugin'' =
     Some (map (\<lambda>m. make_translation ''plugin.php''
                  (findLineNumber (m_index m)
                     (lineIndex_of (''__("a");'' @ [newline] @ ''__("bc"); x("d")''))) m) ms,
           concat (map (\<lambda>m. slug_check ''plugin.php''
                  (findLineNumber (m_index m)
                     (lineIndex_of (''__("a");'' @ [newline] @ ''__("bc"); x("d")'')))
                  ''my-plugin'' (m_msgctxt m)) ms)) \<and>
     sorted_wrt (\<lambda>a b. m_index a < m_index b) ms \<and>
     length ms \<le> length (''__("a");'' @ [newline] @ ''__("bc"); x("d")'')\<close>
  using exec_loop_terminates_in_order [of example_recognise
      \<open>''__("a");'' @ [newline] @ ''__("bc"); x("d")''\<close> "''plugin.php''" "''my-plugin''"]
  by blast

text \<open>
  A run of the example pattern: two calls on two lines, and a call of another
  function that the pattern does not recognise.
\<close>

lemma pattern_matcher_example_run:
  \<open>extractTranslationsFromCode (pattern_matcher example_recognise)
     (''__("a");'' @ [newline] @ ''__("bc"); x("d")'') ''plugin.php'' ''my-plugin'' =
   Some ([\<lparr>ts_msgid = Some ''a'', ts_msgctxt = None, ts_comments = None,
            ts_reference = ''#: plugin.php:1''\<rparr>,
          \<lparr>ts_msgid = Some ''bc'', ts_msgctxt = None, ts_comments = None,
            ts_reference = ''#: plugin.php:2''\<rparr>], [])\<close>
  by (simp add: extractTranslationsFromCode_def pattern_matcher_def recognised_at_def
      example_recognise_def make_translation_def slug_check_def show_lineNumber_def
      findLineNumber_def lineIndex_of_def newline_def Let_def exec_loop.simps show_nat.simps
      digit_char_def upt_rec)

text \<open>Two calls on one line: both occurrences, in the order of the text.\<close>

lemma two_matches_in_order:
  \<open>extractTranslationsFromCode
     (listed_matches
        [\<lparr>m_index = 0, m_fullMatch = ''__("a")'', m_translatorComment = None,
          m_fnPrefix = Some ''__'', m_msgid = Some ''a'', m_msgctxt = None\<rparr>,
         \<lparr>m_index = 8, m_fullMatch = ''__("b")'', m_translatorComment = None,
          m_fnPrefix = Some ''__'', m_msgid = Some ''b'', m_msgctxt = None\<rparr>])
     (''__("a");'' @ ''__("b");'') ''plugin.php'' ''my-plugin'' =
   Some ([\<lparr>ts_msgid = Some ''a'', ts_msgctxt = None, ts_comments = None,
            ts_reference = ''#: plugin.php:1''\<rparr>,
          \<lparr>ts_msgid = Some ''b'', ts_msgctxt = None, ts_comments = None,
            ts_reference = ''#: plugin.php:1''\<rparr>], [])\<close>
  by (simp add: code_eval exec_loop.simps show_nat.simps digit_char_def)








text \<open>
  \<open>removeCommentMarkup\<close> deletes a block comment with its text, and a line from \<open>//\<close> on;
  a text without comment marks is kept.
\<close>

lemma removeCommentMarkup_examples:
  "removeCommentMarkup ''/* translators: name */'' = [] \<and>
   removeCommentMarkup ''see https://example.org'' = ''see https:'' \<and>
   removeCommentMarkup '' translators: name '' = '' translators: name ''"
  by (simp add: is_line_terminator_def)

text \<open>
  C3 (a warning is logged exactly when the captured context differs from the
  slug): the test compares \<open>msgctxt[1]\<close>, the second code unit of the captured
  context, with the slug. For the context \<open>my-plugin\<close> and the slug \<open>my-plugin\<close> a
  warning is logged, with \<open>y\<close> as the value found; the occurrence keeps the context
  as captured.
\<close>

theorem slug_check_compares_second_code_unit:
  \<open>extractTranslationsFromCode
     (listed_matches
        [\<lparr>m_index = 6, m_fullMatch = ''__("Hello", "my-plugin")'', m_translatorComment = None,
          m_fnPrefix = Some ''__'', m_msgid = Some ''Hello'', m_msgctxt = Some ''my-plugin''\<rparr>])
     (''<?php'' @ [newline] @ ''__("Hello", "my-plugin");'') ''plugin.php'' ''my-plugin'' =
   Some ([\<lparr>ts_msgid = Some ''Hello'', ts_msgctxt = Some ''my-plugin'', ts_comments = None,
            ts_reference = ''#: plugin.php:2''\<rparr>],
         [\<lparr>w_filename = ''plugin.php'', w_lineNumber = Some 2, w_found = ''y'',
            w_slug = ''my-plugin''\<rparr>])\<close>
  by (simp add: code_eval exec_loop.simps show_nat.simps digit_char_def)

text \<open>
  When a warning is logged; in particular a context of one code unit is never
  compared with the slug.
\<close>

lemma slug_check_logged_iff:
  "(slug_check filename lineNumber slug ctx \<noteq> []) =
     (\<exists>c. ctx = Some c \<and> 2 \<le> length c \<and> [c ! 1] \<noteq> slug)"
  by (cases ctx) (auto simp: slug_check_def)

lemma slug_check_short_context:
  "slug_check ''plugin.php'' (Some 2) ''my-plugin'' (Some ''x'') = []"
  by (simp add: slug_check_def)

section \<open>The extractors on input without content\<close>

lemma process_item_total:
  "\<exists>cat'. process_item g k fp ti cat = Inr cat'"
proof (cases "truthy (snd ti)")
  case False
  then show ?thesis by (simp add: process_item_def Let_def)
next
  case True
  then show ?thesis
    by (cases "snd ti") (simp_all add: process_item_def Let_def)
qed

lemma process_item_falsy: "\<not> truthy (snd ti) \<Longrightarrow> process_item g k fp ti cat = Inr cat"
  by (simp add: process_item_def Let_def)

lemma forEach_err_total:
  "(\<And>x s. \<exists>s'. f x s = Inr s') \<Longrightarrow> \<exists>s'. forEach_err f xs s = Inr s'"
proof (induction xs arbitrary: s)
  case Nil
  show ?case by simp
next
  case (Cons x xs)
  from Cons.prems obtain s1 where "f x s = Inr s1" by blast
  with Cons show ?case by simp
qed

lemma forEach_err_filter:
  "(\<And>x s. \<not> P x \<Longrightarrow> f x s = Inr s) \<Longrightarrow> forEach_err f (filter P xs) s = forEach_err f xs s"
  by (induction xs arbitrary: s) (auto split: sum.splits)

lemma truthy_entries: "truthy v \<Longrightarrow> \<exists>es. object_entries v = Inr es"
  by (cases v) simp_all

lemma yieldParsedData_total: "\<exists>cat. yieldParsedData g parsed k fp = Inr cat"
proof (cases "truthy parsed")
  case False
  then show ?thesis by (simp add: yieldParsedData_def)
next
  case True
  then obtain es where "object_entries parsed = Inr es"
    using truthy_entries by blast
  with True forEach_err_total [of "process_item g k fp" es "[]"] process_item_total
  show ?thesis by (simp add: yieldParsedData_def)
qed

lemma yieldParsedData_skips_falsy:
  "yieldParsedData g (JObj (filter (\<lambda>ti. truthy (snd ti)) es)) k fp = yieldParsedData g (JObj es) k fp"
  by (simp add: yieldParsedData_def forEach_err_filter process_item_falsy)

lemma extractTranslationsFromCode_no_match:
  "regex content 0 = None \<Longrightarrow> extractTranslationsFromCode regex content filename slug = Some ([], [])"
  unfolding extractTranslationsFromCode_def
  by (subst exec_loop.simps) simp

text \<open>
  C8: \<open>yieldParsedData\<close> returns a catalog for every parsed value, \<open>Object.entries\<close> never
  being reached with \<open>null\<close> or \<open>undefined\<close>; a falsy input gives the empty catalog and
  falsy fields change nothing; a text where the regular expression finds nothing
  gives no occurrence and no warning; a catalog text in which no block matches a
  rule gives no record.
\<close>

theorem extractors_never_throw:
  "(\<exists>cat. yieldParsedData g parsed k fp = Inr cat) \<and>
   (\<not> truthy parsed \<longrightarrow> yieldParsedData g parsed k fp = Inr []) \<and>
   yieldParsedData g (JObj (filter (\<lambda>ti. truthy (snd ti)) es)) k fp = yieldParsedData g (JObj es) k fp \<and>
   (regex content 0 = None \<longrightarrow>
      extractTranslationsFromCode regex content filename slug = Some ([], [])) \<and>
   ((\<forall>entry \<in> set (js_split [newline, newline] catalog).
       \<forall>rule \<in> set prefixRules. \<not> prefix (fst rule) (f_msgid (parse_entry entry))) \<longrightarrow>
      extractTranslations prefixRules catalog = [])"
proof -
  have "extractTranslations prefixRules catalog = []"
    if "\<forall>entry \<in> set (js_split [newline, newline] catalog).
       \<forall>rule \<in> set prefixRules. \<not> prefix (fst rule) (f_msgid (parse_entry entry))"
  proof -
    have "fold (process_entry prefixRules) entries [] = []"
      if "\<forall>entry \<in> set entries. \<forall>rule \<in> set prefixRules. \<not> prefix (fst rule) (f_msgid (parse_entry entry))"
      for entries
      using that
      by (simp add: fold_process_entry fold_push_matching filter_empty_conv)
    from this [OF that] show ?thesis by (simp only: extractTranslations_def)
  qed
  then show ?thesis
    using yieldParsedData_total [of g parsed k fp] yieldParsedData_skips_falsy [of g es k fp]
      extractTranslationsFromCode_no_match [of regex content filename slug]
    by (simp add: yieldParsedData_def)
qed

theorem extractors_never_throw_witness:
  \<open>\<not> truthy (JStr []) \<and>
   yieldParsedData example_getJsonComment (JStr []) BlockJson ''block.json'' = Inr [] \<and>
   yieldParsedData example_getJsonComment
     (JObj (filter (\<lambda>ti. truthy (snd ti)) [(''title'', JStr []), (''tags'', JNull)]))
     BlockJson ''block.json'' =
   yieldParsedData example_getJsonComment (JObj [(''title'', JStr []), (''tags'', JNull)])
     BlockJson ''block.json'' \<and>
   yieldParsedData example_getJsonComment (JObj [(''title'', JStr []), (''tags'', JNull)])
     BlockJson ''block.json'' = Inr [] \<and>
   listed_matches [] ''<?php echo 1;'' 0 = None \<and>
   extractTranslationsFromCode (listed_matches []) ''<?php echo 1;'' ''plugin.php'' ''my-plugin'' =
     Some ([], []) \<and>
   js_split [newline, newline] ''msgid "Unrelated"'' = [''msgid "Unrelated"''] \<and>
   f_msgid (parse_entry ''msgid "Unrelated"'') = ''"Unrelated"'' \<and>
   \<not> prefix ''"Plugin Name'' ''"Unrelated"'' \<and>
   extractTranslations [(''"Plugin Name'', [''Name of the plugin''])] ''msgid "Unrelated"'' = []\<close>
proof -
  have falsy: "\<not> truthy (JStr [])" by simp
  have none: "listed_matches [] ''<?php echo 1;'' 0 = None"
    by (simp add: listed_matches_def)
  have nomatch: \<open>\<forall>entry \<in> set (js_split [newline, newline] ''msgid "Unrelated"'').
      \<forall>rule \<in> set [(''"Plugin Name'', [''Name of the plugin''])].
        \<not> prefix (fst rule) (f_msgid (parse_entry entry))\<close>
    by (simp add: parse_entry_def classify_line_def str_startsWith_def trim_def
        is_whitespace_def newline_def)
  have blocks: \<open>js_split [newline, newline] ''msgid "Unrelated"'' = [''msgid "Unrelated"''] \<and>
      f_msgid (parse_entry ''msgid "Unrelated"'') = ''"Unrelated"'' \<and>
      \<not> prefix ''"Plugin Name'' ''"Unrelated"''\<close>
    by (simp add: parse_entry_def classify_line_def str_startsWith_def trim_def
        is_whitespace_def newline_def)
  have empty: "yieldParsedData example_getJsonComment
     (JObj [(''title'', JStr []), (''tags'', JNull)]) BlockJson ''block.json'' = Inr []"
    by (simp add: yieldParsedData_def process_item_def Let_def)
  from extractors_never_throw [where g = example_getJsonComment and parsed = "JStr []"
      and k = BlockJson and fp = "''block.json''"
      and es = "[(''title'', JStr []), (''tags'', JNull)]" and regex = "listed_matches []"
      and content = "''<?php echo 1;''" and filename = "''plugin.php''" and slug = "''my-plugin''"
      and catalog = \<open>''msgid "Unrelated"''\<close>
      and prefixRules = \<open>[(''"Plugin Name'', [''Name of the plugin''])]\<close>]
    falsy none nomatch empty blocks
  show ?thesis by blast
qed


end
